theory Spec2Isabelle
  imports Complex_Main
begin

section \<open>Data model of \<^verbatim>\<open>network-graph.js\<close>\<close>

text \<open>
  JavaScript numbers are modelled as mathematical reals: rounding, infinities and NaN of
  IEEE doubles are outside this model. Identifiers are strings compared with \<open>===\<close>.
\<close>

type_synonym ident = string

text \<open>The records of the initialization payload (\<open>this.data\<close>). An absent or falsy
  optional field is \<open>None\<close>.\<close>

record node_rec =
  nr_id :: ident
  nr_name :: "string option"
  nr_type :: string
  nr_riskScore :: "real option"

record rel_rec =
  rr_id :: ident
  sourceEntityId :: ident
  targetEntityId :: ident
  rr_type :: "string option"
  rr_strength :: "string option"

record graph_data =
  centerEntityId :: "ident option"
  d_nodes :: "node_rec list"
  relationships :: "rel_rec list"

text \<open>A node object of \<open>this.nodes\<close> and an edge object of \<open>this.edges\<close>.\<close>

record node =
  n_id :: ident
  n_name :: string
  n_type :: string
  n_riskScore :: real
  isCenter :: bool
  n_x :: real
  n_y :: real
  n_vx :: real
  n_vy :: real
  n_radius :: real
  n_layer :: int

record edge =
  e_id :: ident
  e_source :: ident
  e_target :: ident
  e_type :: string
  e_strength :: string

record viewbox =
  vb_x :: real
  vb_y :: real
  vb_width :: real
  vb_height :: real

text \<open>
  The part of the SVG document that the highlight operations read and write. A
  \<open>circle\<close> element carries \<open>stroke\<close>, \<open>stroke-width\<close> and an optional \<open>filter\<close>
  and \<open>opacity\<close> attribute; a \<open>line\<close> element carries its class (whether
  \<open>path-highlight\<close> is in the class list), \<open>stroke\<close>, \<open>stroke-width\<close>, \<open>stroke-opacity\<close>,
  its \<open>data-strength\<close> attribute and the number of \<open>animate\<close> children. Attribute
  values are strings, as \<open>setAttribute\<close> stores them.
  A node group lists its circles in document order; \<open>renderNodes\<close> always appends the
  main circle, so the group has a first circle (what \<open>querySelector('circle')\<close> returns)
  and the circles after it.
\<close>

record circle_el =
  c_stroke :: string
  c_stroke_width :: string
  c_filter :: "string option"
  c_opacity :: "string option"

record line_el =
  l_path_highlight :: bool
  l_stroke :: string
  l_stroke_width :: string
  l_stroke_opacity :: string
  l_data_strength :: "string option"
  l_animates :: nat

record edge_group =
  eg_edgeId :: ident
  eg_line :: line_el

record node_group =
  ng_nodeId :: ident
  ng_first :: circle_el
  ng_rest :: "circle_el list"

text \<open>
  The fields of a \<open>NetworkGraph\<close> instance. \<open>draggedNode\<close> and \<open>selectedNode\<close> are
  references to node objects of \<open>this.nodes\<close>: object identity is the index in the list.
\<close>

record graph =
  containerId :: string
  data :: graph_data
  nodes :: "node list"
  edges :: "edge list"
  selectedNode :: "nat option"
  draggedNode :: "nat option"
  isPanning :: bool
  panStart :: "real \<times> real"
  viewBox :: viewbox
  zoom :: real
  simulationRunning :: bool
  edgesGroup :: "edge_group list"
  nodesGroup :: "node_group list"

section \<open>Shortest path: \<open>findShortestPath\<close>\<close>

text \<open>The neighbours of \<open>current\<close>: \<open>this.edges.filter(...).map(...)\<close>.\<close>

definition neighbors :: "edge list \<Rightarrow> ident \<Rightarrow> ident list" where
  "neighbors es current =
     map (\<lambda>e. if e_source e = current then e_target e else e_source e)
       (filter (\<lambda>e. e_source e = current \<or> e_target e = current) es)"

text \<open>The \<open>for (const neighbor of neighbors)\<close> loop: it returns the extended path as soon
  as a neighbour is \<open>endId\<close>, and otherwise marks and enqueues the unvisited ones.\<close>

datatype scan = Found "ident list" | Continue "ident set" "ident list list"

fun scan_neighbors ::
  "ident \<Rightarrow> ident list \<Rightarrow> ident list \<Rightarrow> ident set \<Rightarrow> ident list list \<Rightarrow> scan" where
  "scan_neighbors endId path [] visited queue = Continue visited queue"
| "scan_neighbors endId path (neighbor # rest) visited queue =
     (if neighbor = endId then Found (path @ [neighbor])
      else if neighbor \<notin> visited
        then scan_neighbors endId path rest (insert neighbor visited) (queue @ [path @ [neighbor]])
        else scan_neighbors endId path rest visited queue)"

definition endpoints :: "edge list \<Rightarrow> ident set" where
  "endpoints es = set (map e_source es) \<union> set (map e_target es)"

lemma neighbors_endpoints: "set (neighbors es c) \<subseteq> endpoints es"
  by (auto simp: neighbors_def endpoints_def)

lemma scan_neighbors_measure:
  "scan_neighbors t p ns V Q = Continue V' Q' \<Longrightarrow> set ns \<subseteq> E \<Longrightarrow> finite E \<Longrightarrow>
     card (E - V') + length Q' = card (E - V) + length Q"
proof (induction ns arbitrary: V Q)
  case Nil
  then show ?case by simp
next
  case (Cons n ns)
  show ?case
  proof (cases "n \<in> V")
    case True
    with Cons show ?thesis by (auto split: if_splits)
  next
    case False
    from Cons.prems have nt: "n \<noteq> t" by (auto split: if_splits)
    with False Cons.prems have
      step: "scan_neighbors t p ns (insert n V) (Q @ [p @ [n]]) = Continue V' Q'"
      by simp
    from Cons.prems have nE: "n \<in> E" by simp
    have "card (E - V') + length Q' = card (E - insert n V) + length (Q @ [p @ [n]])"
      using Cons.IH [OF step] Cons.prems by simp
    moreover have "card (E - insert n V) + 1 = card (E - V)"
    proof -
      have eq: "E - insert n V = (E - V) - {n}" by auto
      have "n \<in> E - V" using nE False by simp
      moreover have "finite (E - V)" using Cons.prems by simp
      ultimately have "Suc (card ((E - V) - {n})) = card (E - V)"
        by (rule card_Suc_Diff1 [rotated])
      then show ?thesis unfolding eq by simp
    qed
    ultimately show ?thesis by simp
  qed
qed

text \<open>The \<open>while (queue.length > 0)\<close> loop; \<open>queue.shift()\<close> takes the head. Every path
  in the queue is non-empty (it starts as \<open>[startId]\<close> and is only ever extended).\<close>

function bfs_loop :: "edge list \<Rightarrow> ident \<Rightarrow> ident set \<Rightarrow> ident list list \<Rightarrow> ident list option" where
  "bfs_loop es endId visited [] = None"
| "bfs_loop es endId visited (path # queue) =
     (case scan_neighbors endId path (neighbors es (last path)) visited queue of
        Found p \<Rightarrow> Some p
      | Continue visited' queue' \<Rightarrow> bfs_loop es endId visited' queue')"
  by pat_completeness auto
termination
proof (relation "measure (\<lambda>(es, endId, visited, queue). card (endpoints es - visited) + length queue)")
  show "wf (measure (\<lambda>(es, endId, visited, queue). card (endpoints es - visited) + length queue))"
    by simp
next
  fix es endId visited path queue V' Q'
  assume "scan_neighbors endId path (neighbors es (last path)) visited queue = Continue V' Q'"
  then have "card (endpoints es - V') + length Q' = card (endpoints es - visited) + length queue"
    by (rule scan_neighbors_measure) (simp_all add: neighbors_endpoints, simp add: endpoints_def)
  then show "((es, endId, V', Q'), (es, endId, visited, path # queue))
      \<in> measure (\<lambda>(es, endId, visited, queue). card (endpoints es - visited) + length queue)"
    by simp
qed

definition findShortestPath :: "graph \<Rightarrow> ident \<Rightarrow> ident \<Rightarrow> ident list option" where
  "findShortestPath g startId endId =
     (if startId = endId then Some [startId]
      else bfs_loop (edges g) endId {startId} [[startId]])"

section \<open>Paths of the undirected graph\<close>

text \<open>
  What the search is measured against: two ids are adjacent when some edge joins them in
  either direction; a path is a non-empty sequence of ids whose consecutive members are
  adjacent; \<open>connects es s t w\<close> says that \<open>w\<close> is a path from \<open>s\<close> to \<open>t\<close>. The number of
  hops of a path is its length minus one.
\<close>

definition adjacent :: "edge list \<Rightarrow> ident \<Rightarrow> ident \<Rightarrow> bool" where
  "adjacent es a b =
     (\<exists>e \<in> set es. (e_source e = a \<and> e_target e = b) \<or> (e_source e = b \<and> e_target e = a))"

fun is_path :: "edge list \<Rightarrow> ident list \<Rightarrow> bool" where
  "is_path es [] = False"
| "is_path es [v] = True"
| "is_path es (a # b # rest) = (adjacent es a b \<and> is_path es (b # rest))"

definition connects :: "edge list \<Rightarrow> ident \<Rightarrow> ident \<Rightarrow> ident list \<Rightarrow> bool" where
  "connects es s t w = (is_path es w \<and> hd w = s \<and> last w = t)"

text \<open>
  The invariant of the search loop, with two auxiliary values: \<open>k\<close>, the length of the
  shorter paths in the queue, and \<open>D\<close>, the ids whose neighbours have all been scanned.
  The queue holds paths of length \<open>k\<close> followed by paths of length \<open>k + 1\<close>, each a
  shortest path from \<open>s\<close> to its last id; every path from \<open>s\<close> of length at most \<open>k\<close>
  ends in a visited id; every visited id is scanned or ends a queued path.
\<close>

definition bfs_inv ::
  "edge list \<Rightarrow> ident \<Rightarrow> ident \<Rightarrow> nat \<Rightarrow> ident set \<Rightarrow> ident set \<Rightarrow> ident list list \<Rightarrow> bool" where
  "bfs_inv es s t k D V Q \<longleftrightarrow>
     s \<in> V \<and> t \<notin> V
     \<and> (\<exists>A B. Q = A @ B \<and> (\<forall>p \<in> set A. length p = k) \<and> (\<forall>p \<in> set B. length p = Suc k))
     \<and> (\<forall>p \<in> set Q. is_path es p \<and> hd p = s \<and> last p \<in> V
            \<and> (\<forall>w. is_path es w \<and> hd w = s \<and> last w = last p \<longrightarrow> length p \<le> length w))
     \<and> (\<forall>w. is_path es w \<and> hd w = s \<and> length w \<le> k \<longrightarrow> last w \<in> V)
     \<and> V \<subseteq> D \<union> last ` set Q
     \<and> (\<forall>u \<in> D. \<forall>n. adjacent es u n \<longrightarrow> n \<in> V)"

section \<open>Graph model: \<open>parseData\<close>\<close>

text \<open>\<open>v || d\<close> on an optional string: absent and empty values are falsy.\<close>

definition or_default :: "string option \<Rightarrow> string \<Rightarrow> string" where
  "or_default v d = (case v of None \<Rightarrow> d | Some s \<Rightarrow> if s = [] then d else s)"

definition mk_node :: "node_rec \<Rightarrow> bool \<Rightarrow> real \<Rightarrow> real \<Rightarrow> real \<Rightarrow> node" where
  "mk_node nd c px py r =
     \<lparr> n_id = nr_id nd,
       n_name = or_default (nr_name nd) ''Unknown'',
       n_type = nr_type nd,
       n_riskScore = (case nr_riskScore nd of None \<Rightarrow> 0 | Some v \<Rightarrow> v),
       isCenter = c,
       n_x = px, n_y = py, n_vx = 0, n_vy = 0,
       n_radius = r,
       n_layer = (if c then 0 else \<lfloor>sqrt (px * px + py * py) / 180\<rfloor>) \<rparr>"

text \<open>
  The callback of \<open>this.data.nodes.map\<close>. The calls of \<open>Math.random()\<close> read the stream
  \<open>rnd\<close> at a counter \<open>c\<close>: a non-centre node draws twice (layer, radius variation), the
  centre node not at all. \<open>len\<close> is \<open>this.data.nodes.length\<close>.
\<close>

fun parse_nodes ::
  "ident option \<Rightarrow> nat \<Rightarrow> (nat \<Rightarrow> real) \<Rightarrow> nat \<Rightarrow> nat \<Rightarrow> node_rec list \<Rightarrow> node list" where
  "parse_nodes center len rnd c index [] = []"
| "parse_nodes center len rnd c index (nd # rest) =
     (if Some (nr_id nd) = center
      then mk_node nd True 0 0 32 # parse_nodes center len rnd c (index + 1) rest
      else
        let angle = (real index / real len) * 2 * pi;
            layer = \<lfloor>rnd c * 2\<rfloor> + 1;
            baseRadius = 180 * real_of_int layer;
            radiusVariation = (rnd (c + 1) - 0.5) * 40;
            px = cos angle * (baseRadius + radiusVariation);
            py = sin angle * (baseRadius + radiusVariation)
        in mk_node nd False px py 24 # parse_nodes center len rnd (c + 2) (index + 1) rest)"

definition parse_edge :: "rel_rec \<Rightarrow> edge" where
  "parse_edge rel =
     \<lparr> e_id = rr_id rel,
       e_source = sourceEntityId rel,
       e_target = targetEntityId rel,
       e_type = or_default (rr_type rel) ''Related'',
       e_strength = or_default (rr_strength rel) ''Medium'' \<rparr>"

definition parseData :: "(nat \<Rightarrow> real) \<Rightarrow> graph \<Rightarrow> graph" where
  "parseData rnd g =
     g\<lparr> nodes := parse_nodes (centerEntityId (data g)) (length (d_nodes (data g))) rnd 0 0
                   (d_nodes (data g)),
        edges := map parse_edge (relationships (data g)) \<rparr>"

text \<open>\<open>this.nodes.find(n => n.id === i)\<close>, as the index of the node object found.\<close>

fun find_node :: "node list \<Rightarrow> ident \<Rightarrow> nat option" where
  "find_node [] i = None"
| "find_node (n # ns) i = (if n_id n = i then Some 0 else map_option Suc (find_node ns i))"

section \<open>Force simulation: \<open>applyForces\<close> and \<open>startSimulation\<close>\<close>

text \<open>The body of the repulsion double loop for the pair \<open>i < j\<close>.\<close>

definition repel :: "real \<Rightarrow> nat \<Rightarrow> nat \<Rightarrow> node list \<Rightarrow> node list" where
  "repel alpha i j ns =
     (let n1 = ns ! i; n2 = ns ! j;
          dx = n_x n1 - n_x n2;
          dy = n_y n1 - n_y n2;
          dist0 = sqrt (dx * dx + dy * dy);
          dist = (if dist0 < 1 then 1 else dist0);
          layerMultiplier = (if n_layer n1 = n_layer n2 then 1.5 else 1.0);
          force = (6000 * layerMultiplier) / (dist * dist) * alpha;
          fx = (dx / dist) * force;
          fy = (dy / dist) * force;
          ns1 = ns[i := n1\<lparr>n_vx := n_vx n1 + fx, n_vy := n_vy n1 + fy\<rparr>];
          m2 = ns1 ! j
      in ns1[j := m2\<lparr>n_vx := n_vx m2 - fx, n_vy := n_vy m2 - fy\<rparr>])"

definition repulsion :: "real \<Rightarrow> node list \<Rightarrow> node list" where
  "repulsion alpha ns =
     fold (\<lambda>i. fold (\<lambda>j. repel alpha i j) [i + 1 ..< length ns]) [0 ..< length ns] ns"

text \<open>The body of \<open>this.edges.forEach\<close>: an edge with an unknown endpoint is skipped.\<close>

definition attract :: "real \<Rightarrow> edge \<Rightarrow> node list \<Rightarrow> node list" where
  "attract alpha e ns =
     (case find_node ns (e_source e) of
        None \<Rightarrow> ns
      | Some si \<Rightarrow>
         (case find_node ns (e_target e) of
            None \<Rightarrow> ns
          | Some ti \<Rightarrow>
             let source = ns ! si; target = ns ! ti;
                 dx = n_x target - n_x source;
                 dy = n_y target - n_y source;
                 dist = sqrt (dx * dx + dy * dy);
                 targetDist = (if e_strength e = ''Strong'' then 100
                               else if e_strength e = ''Medium'' then 140 else 180);
                 force = (dist - targetDist) * 0.06 * alpha;
                 fx = (dx / max 1 dist) * force;
                 fy = (dy / max 1 dist) * force;
                 ns1 = ns[si := source\<lparr>n_vx := n_vx source + fx, n_vy := n_vy source + fy\<rparr>];
                 t2 = ns1 ! ti
             in ns1[ti := t2\<lparr>n_vx := n_vx t2 - fx, n_vy := n_vy t2 - fy\<rparr>]))"

definition attraction :: "real \<Rightarrow> edge list \<Rightarrow> node list \<Rightarrow> node list" where
  "attraction alpha es ns = fold (attract alpha) es ns"

text \<open>The body of the last \<open>this.nodes.forEach\<close> for a node that is not the dragged one:
  centring (and layer retention), damping, integration, boundary clamp.\<close>

definition center_pull :: "real \<Rightarrow> node \<Rightarrow> node" where
  "center_pull alpha n =
     (if isCenter n
      then n\<lparr>n_vx := n_vx n - n_x n * 0.1 * alpha, n_vy := n_vy n - n_y n * 0.1 * alpha\<rparr>
      else
        let n' = n\<lparr>n_vx := n_vx n - n_x n * 0.02 * alpha, n_vy := n_vy n - n_y n * 0.02 * alpha\<rparr>;
            currentDist = sqrt (n_x n * n_x n + n_y n * n_y n);
            targetDist = real_of_int (n_layer n) * 180
        in if currentDist > 0 \<and> targetDist > 0
           then
             let distDiff = currentDist - targetDist;
                 force = distDiff * 0.03 * alpha
             in n'\<lparr>n_vx := n_vx n' - (n_x n / currentDist) * force,
                   n_vy := n_vy n' - (n_y n / currentDist) * force\<rparr>
           else n')"

definition integrate_node :: "real \<Rightarrow> node \<Rightarrow> node" where
  "integrate_node alpha n =
     (let n1 = center_pull alpha n;
          n2 = n1\<lparr>n_vx := n_vx n1 * 0.8, n_vy := n_vy n1 * 0.8\<rparr>;
          n3 = n2\<lparr>n_x := n_x n2 + n_vx n2, n_y := n_y n2 + n_vy n2\<rparr>
      in n3\<lparr>n_x := max (- 500) (min 500 (n_x n3)), n_y := max (- 500) (min 500 (n_y n3))\<rparr>)"

definition integrate :: "nat option \<Rightarrow> real \<Rightarrow> node list \<Rightarrow> node list" where
  "integrate dragged alpha ns =
     map (\<lambda>(i, n). if Some i = dragged then n else integrate_node alpha n) (enumerate 0 ns)"

definition applyForces :: "real \<Rightarrow> graph \<Rightarrow> graph" where
  "applyForces alpha g =
     g\<lparr>nodes := integrate (draggedNode g) alpha
                  (attraction alpha (edges g) (repulsion alpha (nodes g)))\<rparr>"

text \<open>
  \<open>startSimulation\<close> sets the running flag and creates the closure variable \<open>steps\<close>; the
  simulation state is the pair of \<open>steps\<close> and the graph. \<open>tick\<close> returns the new state and
  whether it has called \<open>requestAnimationFrame(tick)\<close> again. (\<open>updatePositions\<close> only copies
  node positions into the document.)
\<close>

definition maxSteps :: nat where
  "maxSteps = 150"

definition startSimulation :: "graph \<Rightarrow> nat \<times> graph" where
  "startSimulation g = (0, g\<lparr>simulationRunning := True\<rparr>)"

definition tick :: "nat \<times> graph \<Rightarrow> (nat \<times> graph) \<times> bool" where
  "tick st =
     (case st of (steps, g) \<Rightarrow>
        if \<not> simulationRunning g \<or> steps \<ge> maxSteps
        then ((steps, g\<lparr>simulationRunning := False\<rparr>), False)
        else
          let steps' = steps + 1;
              alpha = 1 - real steps' / real maxSteps
          in ((steps', applyForces alpha g), True))"

text \<open>The animation frames of one simulation run with no other event in between: \<open>tick\<close>
  is called again as long as it has rescheduled itself.\<close>

function run_simulation :: "nat \<times> graph \<Rightarrow> nat \<times> graph" where
  "run_simulation st =
     (case tick st of (st', again) \<Rightarrow> if again then run_simulation st' else st')"
  by pat_completeness auto
termination
  by (relation "measure (\<lambda>st. maxSteps - fst st)")
     (auto simp: tick_def Let_def split: prod.splits if_splits)

text \<open>
  The animation frames of a run with other events in between: before each frame a handler
  (any function on the graph: a drag, a zoom, \<open>destroy\<close>) may have changed the graph; no
  handler can reach the closure variable \<open>steps\<close>. The result says whether \<open>tick\<close> is
  still scheduled after the frames.
\<close>

fun run_frames :: "(graph \<Rightarrow> graph) list \<Rightarrow> nat \<times> graph \<Rightarrow> (nat \<times> graph) \<times> bool" where
  "run_frames [] st = (st, True)"
| "run_frames (handler # rest) st =
     (case tick (fst st, handler (snd st)) of
        (st', again) \<Rightarrow> if again then run_frames rest st' else (st', False))"

definition destroy :: "graph \<Rightarrow> graph" where
  "destroy g = g\<lparr>simulationRunning := False\<rparr>"

section \<open>Interaction: drag, pan and zoom\<close>

text \<open>\<open>mousedown\<close> on a node group with the given \<open>data-node-id\<close>.\<close>

definition mousedown_node :: "ident \<Rightarrow> graph \<Rightarrow> graph" where
  "mousedown_node nodeId g =
     (let found = find_node (nodes g) nodeId
      in g\<lparr>draggedNode := found, selectedNode := found\<rparr>)"

text \<open>\<open>mousedown\<close> that reaches the \<open>svg\<close> element.\<close>

definition mousedown_svg :: "real \<times> real \<Rightarrow> graph \<Rightarrow> graph" where
  "mousedown_svg client g =
     (if draggedNode g = None then g\<lparr>isPanning := True, panStart := client\<rparr> else g)"

record rect =
  r_left :: real
  r_top :: real
  r_width :: real
  r_height :: real

text \<open>The transform from client (pixel) coordinates to model coordinates that
  \<open>mousemove\<close> computes from the bounding rectangle of the \<open>svg\<close> element.\<close>

definition client_to_svg :: "real \<times> real \<Rightarrow> rect \<Rightarrow> graph \<Rightarrow> real \<times> real" where
  "client_to_svg client r g =
     (case client of (cx, cy) \<Rightarrow>
        ((cx - r_left r) / r_width r * vb_width (viewBox g) + vb_x (viewBox g),
         (cy - r_top r) / r_height r * vb_height (viewBox g) + vb_y (viewBox g)))"

text \<open>\<open>mousemove\<close> at client coordinates \<open>(cx, cy)\<close>. A dragged node is written through
  its reference.\<close>

definition mousemove :: "real \<times> real \<Rightarrow> rect \<Rightarrow> graph \<Rightarrow> graph" where
  "mousemove client r g =
     (case client of (cx, cy) \<Rightarrow>
        (case draggedNode g of
           Some d \<Rightarrow>
             let svgX = fst (client_to_svg client r g);
                 svgY = snd (client_to_svg client r g)
             in g\<lparr>nodes := (nodes g)[d := (nodes g ! d)\<lparr>n_x := svgX, n_y := svgY\<rparr>]\<rparr>
         | None \<Rightarrow>
             if isPanning g
             then
               let dx = (cx - fst (panStart g)) * zoom g;
                   dy = (cy - snd (panStart g)) * zoom g
               in g\<lparr>viewBox := (viewBox g)\<lparr>vb_x := vb_x (viewBox g) - dx,
                                              vb_y := vb_y (viewBox g) - dy\<rparr>,
                     panStart := (cx, cy)\<rparr>
             else g))"

definition mouseup :: "graph \<Rightarrow> graph" where
  "mouseup g = g\<lparr>draggedNode := None, isPanning := False\<rparr>"

definition zoomIn :: "graph \<Rightarrow> graph" where
  "zoomIn g =
     (let z = max 0.5 (zoom g - 0.1);
          w = 1000 * z;
          h = 800 * z
      in g\<lparr>zoom := z, viewBox := \<lparr>vb_x = - w / 2, vb_y = - h / 2, vb_width = w, vb_height = h\<rparr>\<rparr>)"

definition zoomOut :: "graph \<Rightarrow> graph" where
  "zoomOut g =
     (let z = min 2 (zoom g + 0.1);
          w = 1000 * z;
          h = 800 * z
      in g\<lparr>zoom := z, viewBox := \<lparr>vb_x = - w / 2, vb_y = - h / 2, vb_width = w, vb_height = h\<rparr>\<rparr>)"

section \<open>Rendering and path highlighting\<close>

definition getEdgeColor :: "string \<Rightarrow> string" where
  "getEdgeColor strength =
     (if strength = ''Strong'' then ''#475569''
      else if strength = ''Medium'' then ''#94a3b8''
      else if strength = ''Weak'' then ''#cbd5e1''
      else ''#94a3b8'')"

definition getEdgeWidth :: "string \<Rightarrow> string" where
  "getEdgeWidth strength =
     (if strength = ''Strong'' then ''3''
      else if strength = ''Medium'' then ''2''
      else if strength = ''Weak'' then ''1''
      else ''2'')"

definition getRiskColor :: "real \<Rightarrow> string" where
  "getRiskColor score =
     (if score \<ge> 80 then ''#ef4444''
      else if score \<ge> 60 then ''#f59e0b''
      else if score \<ge> 40 then ''#3b82f6''
      else ''#22c55e'')"

definition shadow_url :: "string \<Rightarrow> string" where
  "shadow_url cid = ''url(#shadow-'' @ cid @ '')''"

definition glow_url :: "string \<Rightarrow> string" where
  "glow_url cid = ''url(#glow-'' @ cid @ '')''"

text \<open>\<open>renderEdges\<close>: one group per edge whose two endpoints are known nodes. The line
  gets no \<open>data-strength\<close> attribute.\<close>

definition render_edge :: "edge \<Rightarrow> edge_group" where
  "render_edge e =
     \<lparr> eg_edgeId = e_id e,
       eg_line = \<lparr> l_path_highlight = False,
                   l_stroke = getEdgeColor (e_strength e),
                   l_stroke_width = getEdgeWidth (e_strength e),
                   l_stroke_opacity = ''0.6'',
                   l_data_strength = None,
                   l_animates = 0 \<rparr> \<rparr>"

definition renderEdges :: "graph \<Rightarrow> graph" where
  "renderEdges g =
     g\<lparr>edgesGroup :=
         map render_edge
           (filter (\<lambda>e. find_node (nodes g) (e_source e) \<noteq> None
                       \<and> find_node (nodes g) (e_target e) \<noteq> None) (edges g))\<rparr>"

text \<open>\<open>renderNodes\<close>: the circles of a node group in document order are the layer ring
  (non-centre nodes of a layer above 0), the risk ring (risk score at least 60), the main
  circle and the circle of the risk badge.\<close>

definition render_node :: "string \<Rightarrow> node \<Rightarrow> node_group" where
  "render_node cid n =
     (let layerRing = \<lparr> c_stroke = ''#e2e8f0'', c_stroke_width = ''1'', c_filter = None,
                         c_opacity = Some ''0.5'' \<rparr>;
          riskRing = \<lparr> c_stroke = getRiskColor (n_riskScore n), c_stroke_width = ''3'',
                        c_filter = None, c_opacity = None \<rparr>;
          circle = \<lparr> c_stroke = (if isCenter n then ''#1e40af'' else ''#fff''),
                      c_stroke_width = (if isCenter n then ''4'' else ''2''),
                      c_filter = Some (shadow_url cid), c_opacity = None \<rparr>;
          badgeCircle = \<lparr> c_stroke = ''white'', c_stroke_width = ''2'', c_filter = None,
                           c_opacity = None \<rparr>;
          circles = (if \<not> isCenter n \<and> n_layer n > 0 then [layerRing] else [])
                    @ (if n_riskScore n \<ge> 60 then [riskRing] else [])
                    @ [circle, badgeCircle]
      in \<lparr> ng_nodeId = n_id n, ng_first = hd circles, ng_rest = tl circles \<rparr>)"

definition renderNodes :: "graph \<Rightarrow> graph" where
  "renderNodes g = g\<lparr>nodesGroup := map (render_node (containerId g)) (nodes g)\<rparr>"

definition render :: "graph \<Rightarrow> graph" where
  "render g = renderNodes (renderEdges g)"

text \<open>\<open>init\<close>, as far as the graph state goes: \<open>parseData\<close>, \<open>render\<close>, \<open>startSimulation\<close>.\<close>

definition new_graph :: "string \<Rightarrow> graph_data \<Rightarrow> graph" where
  "new_graph cid d =
     \<lparr> containerId = cid, data = d, nodes = [], edges = [],
       selectedNode = None, draggedNode = None, isPanning = False, panStart = (0, 0),
       viewBox = \<lparr> vb_x = - 500, vb_y = - 400, vb_width = 1000, vb_height = 800 \<rparr>,
       zoom = 1, simulationRunning = False, edgesGroup = [], nodesGroup = [] \<rparr>"

definition init :: "(nat \<Rightarrow> real) \<Rightarrow> string \<Rightarrow> graph_data \<Rightarrow> nat \<times> graph" where
  "init rnd cid d = startSimulation (render (parseData rnd (new_graph cid d)))"

text \<open>\<open>clearPathHighlight\<close> (it always returns \<open>true\<close>): every line of class
  \<open>path-highlight\<close> loses the class and its \<open>animate\<close> children and gets the stroke of
  \<open>line.dataset.strength || 'Medium'\<close>; the first circle of every node group whose node
  is known gets the render-time stroke and loses its \<open>filter\<close> attribute.\<close>

definition clear_line :: "line_el \<Rightarrow> line_el" where
  "clear_line l =
     (if l_path_highlight l
      then l\<lparr> l_path_highlight := False,
              l_stroke := getEdgeColor (or_default (l_data_strength l) ''Medium''),
              l_stroke_width := getEdgeWidth (or_default (l_data_strength l) ''Medium''),
              l_animates := 0 \<rparr>
      else l)"

definition clear_node_group :: "node list \<Rightarrow> node_group \<Rightarrow> node_group" where
  "clear_node_group ns ng =
     (case find_node ns (ng_nodeId ng) of
        None \<Rightarrow> ng
      | Some i \<Rightarrow>
          ng\<lparr>ng_first := (ng_first ng)
               \<lparr> c_stroke := (if isCenter (ns ! i) then ''#1e40af'' else ''#fff''),
                 c_stroke_width := (if isCenter (ns ! i) then ''4'' else ''2''),
                 c_filter := None \<rparr>\<rparr>)"

definition clearPathHighlight :: "graph \<Rightarrow> graph" where
  "clearPathHighlight g =
     g\<lparr> edgesGroup := map (\<lambda>eg. eg\<lparr>eg_line := clear_line (eg_line eg)\<rparr>) (edgesGroup g),
        nodesGroup := map (clear_node_group (nodes g)) (nodesGroup g) \<rparr>"



fun update_first :: "('a \<Rightarrow> bool) \<Rightarrow> ('a \<Rightarrow> 'a) \<Rightarrow> 'a list \<Rightarrow> 'a list" where
  "update_first P f [] = []"
| "update_first P f (x # xs) = (if P x then f x # xs else x # update_first P f xs)"

definition find_edge :: "edge list \<Rightarrow> ident \<Rightarrow> ident \<Rightarrow> edge option" where
  "find_edge es sourceId targetId =
     find (\<lambda>e. (e_source e = sourceId \<and> e_target e = targetId)
              \<or> (e_source e = targetId \<and> e_target e = sourceId)) es"

definition highlight_line :: "line_el \<Rightarrow> line_el" where
  "highlight_line l =
     l\<lparr> l_path_highlight := True, l_stroke := ''#3b82f6'', l_stroke_width := ''4'',
        l_animates := l_animates l + 1 \<rparr>"

text \<open>The body of the loop over the consecutive pairs of the path: the line of the first
  group carrying the id of the edge found is marked; then the loop itself.\<close>

definition mark_edge :: "edge_group \<Rightarrow> edge_group" where
  "mark_edge eg = eg\<lparr>eg_line := highlight_line (eg_line eg)\<rparr>"

definition highlight_pair ::
  "edge list \<Rightarrow> ident \<Rightarrow> ident \<Rightarrow> edge_group list \<Rightarrow> edge_group list" where
  "highlight_pair es sourceId targetId egs =
     (case find_edge es sourceId targetId of
        None \<Rightarrow> egs
      | Some e \<Rightarrow> update_first (\<lambda>eg. eg_edgeId eg = e_id e) mark_edge egs)"

fun highlight_edges :: "edge list \<Rightarrow> ident list \<Rightarrow> edge_group list \<Rightarrow> edge_group list" where
  "highlight_edges es (sourceId # targetId # rest) egs =
     highlight_edges es (targetId # rest) (highlight_pair es sourceId targetId egs)"
| "highlight_edges es path egs = egs"

definition highlight_circle :: "string \<Rightarrow> circle_el \<Rightarrow> circle_el" where
  "highlight_circle cid c =
     c\<lparr> c_stroke := ''#3b82f6'', c_stroke_width := ''4'', c_filter := Some (glow_url cid) \<rparr>"

definition mark_node :: "string \<Rightarrow> node_group \<Rightarrow> node_group" where
  "mark_node cid ng = ng\<lparr>ng_first := highlight_circle cid (ng_first ng)\<rparr>"

definition highlight_nodes :: "string \<Rightarrow> ident list \<Rightarrow> node_group list \<Rightarrow> node_group list" where
  "highlight_nodes cid path ngs =
     fold (\<lambda>nodeId. update_first (\<lambda>ng. ng_nodeId ng = nodeId) (mark_node cid)) path ngs"

definition highlightPath :: "ident \<Rightarrow> ident \<Rightarrow> graph \<Rightarrow> bool \<times> graph" where
  "highlightPath sourceNodeId targetNodeId g =
     (case findShortestPath g sourceNodeId targetNodeId of
        None \<Rightarrow> (False, g)
      | Some path \<Rightarrow>
          if length path < 2 then (False, g)
          else
            let g1 = clearPathHighlight g
            in (True, g1\<lparr> edgesGroup := highlight_edges (edges g1) path (edgesGroup g1),
                          nodesGroup := highlight_nodes (containerId g1) path (nodesGroup g1) \<rparr>))"

section \<open>Highlight marks\<close>









section \<open>Example graphs\<close>

text \<open>The payload of the concrete scenario of the specification: the anchor \<open>A\<close>, a second
  node \<open>B\<close> and a strong edge between them; every \<open>Math.random()\<close> draw is \<open>1/2\<close>.\<close>

definition demo_data :: graph_data where
  "demo_data =
     \<lparr> centerEntityId = Some ''A'',
       d_nodes = [\<lparr>nr_id = ''A'', nr_name = None, nr_type = ''Person'', nr_riskScore = None\<rparr>,
                  \<lparr>nr_id = ''B'', nr_name = None, nr_type = ''Account'', nr_riskScore = None\<rparr>],
       relationships = [\<lparr>rr_id = ''e1'', sourceEntityId = ''A'', targetEntityId = ''B'',
                         rr_type = None, rr_strength = Some ''Strong''\<rparr>] \<rparr>"

definition demo_graph :: graph where
  "demo_graph = snd (init (\<lambda>_. 1 / 2) ''graph'' demo_data)"

definition client_rect :: rect where
  "client_rect = \<lparr>r_left = 0, r_top = 0, r_width = 1000, r_height = 800\<rparr>"

definition panned_graph :: graph where
  "panned_graph = mouseup (mousemove (- 600, 0) client_rect (mousedown_svg (0, 0) demo_graph))"

text \<open>A drag of node \<open>B\<close>: \<open>mousedown\<close> on it, one animation frame of the running
  simulation, a \<open>mousemove\<close> to the client point \<open>(700, 400)\<close>, then \<open>mouseup\<close>.\<close>

definition dragging_graph :: graph where
  "dragging_graph = mousedown_node ''B'' demo_graph"

definition dragged_step_graph :: graph where
  "dragged_step_graph = snd (fst (tick (0, dragging_graph)))"


text \<open>A payload whose only relationship points to a node \<open>Z\<close> that does not exist.\<close>

definition dangling_data :: graph_data where
  "dangling_data =
     \<lparr> centerEntityId = Some ''A'',
       d_nodes = [\<lparr>nr_id = ''A'', nr_name = None, nr_type = ''Person'', nr_riskScore = None\<rparr>],
       relationships = [\<lparr>rr_id = ''e1'', sourceEntityId = ''A'', targetEntityId = ''Z'',
                         rr_type = None, rr_strength = None\<rparr>] \<rparr>"

definition dangling_graph :: graph where
  "dangling_graph = parseData (\<lambda>_. 1 / 2) (new_graph ''graph'' dangling_data)"

text \<open>The path graph \<open>A - B - C - D - E\<close> (with edges stored in both orientations) and a
  graph of two components \<open>A - B\<close> and \<open>C - D\<close>.\<close>

definition plain_node :: "ident \<Rightarrow> node_rec" where
  "plain_node i = \<lparr>nr_id = i, nr_name = None, nr_type = ''Person'', nr_riskScore = None\<rparr>"

definition plain_rel :: "ident \<Rightarrow> ident \<Rightarrow> ident \<Rightarrow> rel_rec" where
  "plain_rel i a b =
     \<lparr>rr_id = i, sourceEntityId = a, targetEntityId = b, rr_type = None, rr_strength = None\<rparr>"

definition path_data :: graph_data where
  "path_data =
     \<lparr> centerEntityId = None,
       d_nodes = map plain_node [''A'', ''B'', ''C'', ''D'', ''E''],
       relationships = [plain_rel ''e1'' ''A'' ''B'', plain_rel ''e2'' ''C'' ''B'',
                        plain_rel ''e3'' ''C'' ''D'', plain_rel ''e4'' ''E'' ''D''] \<rparr>"

definition path_graph :: graph where
  "path_graph = snd (init (\<lambda>_. 1 / 2) ''graph'' path_data)"

definition two_components_data :: graph_data where
  "two_components_data =
     \<lparr> centerEntityId = None,
       d_nodes = map plain_node [''A'', ''B'', ''C'', ''D''],
       relationships = [plain_rel ''e1'' ''A'' ''B'', plain_rel ''e2'' ''C'' ''D''] \<rparr>"

definition two_components_graph :: graph where
  "two_components_graph = snd (init (\<lambda>_. 1 / 2) ''graph'' two_components_data)"




definition demo_highlighted :: graph where
  "demo_highlighted = snd (highlightPath ''A'' ''B'' demo_graph)"

definition demo_cleared :: graph where
  "demo_cleared = clearPathHighlight demo_highlighted"


section \<open>Evaluation of the example graphs\<close>

lemma sqrt_129600: "sqrt 129600 = 360"
proof -
  have "sqrt (360 * 360) = \<bar>360\<bar>" by (rule real_sqrt_abs2)
  then show ?thesis by simp
qed

lemmas eval_defs = init_def startSimulation_def render_def renderNodes_def renderEdges_def
  render_node_def render_edge_def parse_edge_def parseData_def new_graph_def mk_node_def
  or_default_def Let_def getEdgeColor_def getEdgeWidth_def shadow_url_def glow_url_def

lemma demo_graph_nodes:
  "nodes demo_graph =
     [\<lparr>n_id = ''A'', n_name = ''Unknown'', n_type = ''Person'', n_riskScore = 0,
        isCenter = True, n_x = 0, n_y = 0, n_vx = 0, n_vy = 0, n_radius = 32, n_layer = 0\<rparr>,
      \<lparr>n_id = ''B'', n_name = ''Unknown'', n_type = ''Account'', n_riskScore = 0,
        isCenter = False, n_x = - 360, n_y = 0, n_vx = 0, n_vy = 0, n_radius = 24, n_layer = 2\<rparr>]"
  by (simp add: demo_graph_def demo_data_def eval_defs sqrt_129600)


lemmas step_defs = tick_def maxSteps_def applyForces_def integrate_def integrate_node_def
  center_pull_def attraction_def attract_def repulsion_def repel_def enumerate_eq_zip

lemma demo_graph_edges:
  "edges demo_graph = [\<lparr>e_id = ''e1'', e_source = ''A'', e_target = ''B'',
              e_type = ''Related'', e_strength = ''Strong''\<rparr>]"
  by (simp add: demo_graph_def demo_data_def eval_defs)

lemma demo_graph_flags:
  "draggedNode demo_graph = None \<and> simulationRunning demo_graph \<and> \<not> isPanning demo_graph
   \<and> zoom demo_graph = 1
   \<and> viewBox demo_graph = \<lparr>vb_x = - 500, vb_y = - 400, vb_width = 1000, vb_height = 800\<rparr>"
  by (simp add: demo_graph_def eval_defs)

lemma dragging_graph_simps:
  "draggedNode dragging_graph = Some 1" "nodes dragging_graph = nodes demo_graph"
  "edges dragging_graph = edges demo_graph" "simulationRunning dragging_graph"
  "viewBox dragging_graph = viewBox demo_graph"
  by (simp_all add: dragging_graph_def mousedown_node_def Let_def demo_graph_nodes demo_graph_flags)

lemma dragged_step_nodes:
  "nodes dragged_step_graph =
     [\<lparr>n_id = ''A'', n_name = ''Unknown'', n_type = ''Person'', n_riskScore = 0,
        isCenter = True, n_x = - (1251451 / 101250), n_y = 0, n_vx = - (1251451 / 101250),
        n_vy = 0, n_radius = 32, n_layer = 0\<rparr>,
      \<lparr>n_id = ''B'', n_name = ''Unknown'', n_type = ''Account'', n_riskScore = 0,
        isCenter = False, n_x = - 360, n_y = 0, n_vx = 1251451 / 81000, n_vy = 0,
        n_radius = 24, n_layer = 2\<rparr>]"
  by (simp add: dragged_step_graph_def dragging_graph_simps demo_graph_nodes demo_graph_edges step_defs Let_def sqrt_129600)

lemma dragged_step_flags:
  "draggedNode dragged_step_graph = Some 1" "viewBox dragged_step_graph = viewBox demo_graph"
  by (simp_all add: dragged_step_graph_def dragging_graph_simps tick_def maxSteps_def
      applyForces_def Let_def)

lemma dangling_graph_simps:
  "nodes dangling_graph =
     [\<lparr>n_id = ''A'', n_name = ''Unknown'', n_type = ''Person'', n_riskScore = 0,
        isCenter = True, n_x = 0, n_y = 0, n_vx = 0, n_vy = 0, n_radius = 32, n_layer = 0\<rparr>]"
  "edges dangling_graph =
     [\<lparr>e_id = ''e1'', e_source = ''A'', e_target = ''Z'', e_type = ''Related'',
        e_strength = ''Medium''\<rparr>]"
  by (simp_all add: dangling_graph_def dangling_data_def eval_defs)

lemma init_edges: "edges (snd (init rnd cid d)) = map parse_edge (relationships d)"
  by (simp add: init_def startSimulation_def render_def renderNodes_def renderEdges_def
      parseData_def new_graph_def)

lemma path_graph_edges:
  "edges path_graph =
     [\<lparr>e_id = ''e1'', e_source = ''A'', e_target = ''B'', e_type = ''Related'', e_strength = ''Medium''\<rparr>,
      \<lparr>e_id = ''e2'', e_source = ''C'', e_target = ''B'', e_type = ''Related'', e_strength = ''Medium''\<rparr>,
      \<lparr>e_id = ''e3'', e_source = ''C'', e_target = ''D'', e_type = ''Related'', e_strength = ''Medium''\<rparr>,
      \<lparr>e_id = ''e4'', e_source = ''E'', e_target = ''D'', e_type = ''Related'', e_strength = ''Medium''\<rparr>]"
  by (simp add: path_graph_def init_edges path_data_def plain_rel_def parse_edge_def or_default_def)

lemma two_components_graph_edges:
  "edges two_components_graph =
     [\<lparr>e_id = ''e1'', e_source = ''A'', e_target = ''B'', e_type = ''Related'', e_strength = ''Medium''\<rparr>,
      \<lparr>e_id = ''e2'', e_source = ''C'', e_target = ''D'', e_type = ''Related'', e_strength = ''Medium''\<rparr>]"
  by (simp add: two_components_graph_def init_edges two_components_data_def plain_rel_def
      parse_edge_def or_default_def)

lemma path_graph_search:
  "findShortestPath path_graph ''A'' ''E'' = Some [''A'', ''B'', ''C'', ''D'', ''E'']"
  "findShortestPath path_graph ''A'' ''C'' = Some [''A'', ''B'', ''C'']"
  by (simp_all add: findShortestPath_def path_graph_edges neighbors_def)

lemma two_components_search:
  "findShortestPath two_components_graph ''A'' ''D'' = None"
  by (simp add: findShortestPath_def two_components_graph_edges neighbors_def)


lemma demo_graph_dom:
  "containerId demo_graph = ''graph''"
  "edgesGroup demo_graph =
     [\<lparr>eg_edgeId = ''e1'', eg_line = \<lparr>l_path_highlight = False, l_stroke = ''#475569'',
         l_stroke_width = ''3'', l_stroke_opacity = ''0.6'', l_data_strength = None, l_animates = 0\<rparr>\<rparr>]"
  "nodesGroup demo_graph =
     [\<lparr>ng_nodeId = ''A'',
        ng_first = \<lparr>c_stroke = ''#1e40af'', c_stroke_width = ''4'',
                     c_filter = Some ''url(#shadow-graph)'', c_opacity = None\<rparr>,
        ng_rest = [\<lparr>c_stroke = ''white'', c_stroke_width = ''2'', c_filter = None,
                     c_opacity = None\<rparr>]\<rparr>,
      \<lparr>ng_nodeId = ''B'',
        ng_first = \<lparr>c_stroke = ''#e2e8f0'', c_stroke_width = ''1'', c_filter = None,
                     c_opacity = Some ''0.5''\<rparr>,
        ng_rest = [\<lparr>c_stroke = ''#fff'', c_stroke_width = ''2'',
                     c_filter = Some ''url(#shadow-graph)'', c_opacity = None\<rparr>,
                   \<lparr>c_stroke = ''white'', c_stroke_width = ''2'', c_filter = None,
                     c_opacity = None\<rparr>]\<rparr>]"
  by (simp_all add: demo_graph_def demo_data_def eval_defs sqrt_129600)

lemmas highlight_defs = highlightPath_def findShortestPath_def neighbors_def
  clearPathHighlight_def clear_line_def clear_node_group_def highlight_pair_def find_edge_def
  mark_edge_def highlight_line_def highlight_nodes_def mark_node_def highlight_circle_def
  glow_url_def or_default_def getEdgeColor_def getEdgeWidth_def Let_def






lemma demo_search: "findShortestPath demo_graph ''A'' ''B'' = Some [''A'', ''B'']"
  by (simp add: findShortestPath_def neighbors_def demo_graph_edges)

lemma demo_highlighted_fields:
  "fst (highlightPath ''A'' ''B'' demo_graph) = True"
  "nodes demo_highlighted = nodes demo_graph"
  "edgesGroup demo_highlighted =
     [\<lparr>eg_edgeId = ''e1'', eg_line = \<lparr>l_path_highlight = True, l_stroke = ''#3b82f6'',
         l_stroke_width = ''4'', l_stroke_opacity = ''0.6'', l_data_strength = None, l_animates = 1\<rparr>\<rparr>]"
  "nodesGroup demo_highlighted =
     [\<lparr>ng_nodeId = ''A'',
        ng_first = \<lparr>c_stroke = ''#3b82f6'', c_stroke_width = ''4'',
                     c_filter = Some ''url(#glow-graph)'', c_opacity = None\<rparr>,
        ng_rest = [\<lparr>c_stroke = ''white'', c_stroke_width = ''2'', c_filter = None,
                     c_opacity = None\<rparr>]\<rparr>,
      \<lparr>ng_nodeId = ''B'',
        ng_first = \<lparr>c_stroke = ''#3b82f6'', c_stroke_width = ''4'',
                     c_filter = Some ''url(#glow-graph)'', c_opacity = Some ''0.5''\<rparr>,
        ng_rest = [\<lparr>c_stroke = ''#fff'', c_stroke_width = ''2'',
                     c_filter = Some ''url(#shadow-graph)'', c_opacity = None\<rparr>,
                   \<lparr>c_stroke = ''white'', c_stroke_width = ''2'', c_filter = None,
                     c_opacity = None\<rparr>]\<rparr>]"
  by (simp_all add: demo_highlighted_def highlight_defs demo_graph_dom demo_graph_edges
      demo_graph_nodes)

section \<open>Termination of the simulation\<close>

lemma applyForces_running [simp]: "simulationRunning (applyForces alpha g) = simulationRunning g"
  by (simp add: applyForces_def)

lemma run_simulation_idle:
  "\<not> simulationRunning (snd (run_simulation st))"
proof (induction st rule: run_simulation.induct)
  case (1 st)
  obtain st' again where t: "tick st = (st', again)" by (cases "tick st")
  show ?case
  proof (cases again)
    case True
    with t 1 show ?thesis by (subst run_simulation.simps) simp
  next
    case False
    with t have "\<not> simulationRunning (snd st')"
      by (auto simp: tick_def Let_def split: prod.splits if_splits)
    with t False show ?thesis by (subst run_simulation.simps) simp
  qed
qed

lemma run_simulation_all_steps:
  "simulationRunning (snd st) \<Longrightarrow> fst st \<le> maxSteps \<Longrightarrow> fst (run_simulation st) = maxSteps"
proof (induction st rule: run_simulation.induct)
  case (1 st)
  obtain st' again where t: "tick st = (st', again)" by (cases "tick st")
  show ?case
  proof (cases again)
    case True
    with t "1.prems" have "simulationRunning (snd st')" "fst st' \<le> maxSteps"
      by (auto simp: tick_def Let_def split: prod.splits if_splits)
    with t True 1 show ?thesis by (subst run_simulation.simps) simp
  next
    case False
    with t "1.prems" have "fst st' = maxSteps"
      by (auto simp: tick_def Let_def split: prod.splits if_splits)
    with t False show ?thesis by (subst run_simulation.simps) simp
  qed
qed

lemma tick_cases:
  obtains (step) "simulationRunning g" "n < maxSteps"
      "tick (n, g) = ((Suc n, applyForces (1 - real (Suc n) / real maxSteps) g), True)"
    | (stop) "\<not> simulationRunning g \<or> maxSteps \<le> n"
      "tick (n, g) = ((n, g\<lparr>simulationRunning := False\<rparr>), False)"
  by (cases "\<not> simulationRunning g \<or> maxSteps \<le> n") (auto simp: tick_def Let_def)

lemma run_frames_steps:
  "fst st \<le> maxSteps \<Longrightarrow> fst (fst (run_frames hs st)) \<le> maxSteps"
proof (induction hs arbitrary: st)
  case Nil
  then show ?case by simp
next
  case (Cons h hs)
  show ?case
  proof (cases "fst st" "h (snd st)" rule: tick_cases)
    case step
    then show ?thesis using Cons.IH [of "(Suc (fst st), applyForces (1 - real (Suc (fst st)) / real maxSteps) (h (snd st)))"]
      by simp
  next
    case stop
    then show ?thesis using Cons.prems by simp
  qed
qed

lemma run_frames_scheduled:
  "snd (run_frames hs st) \<Longrightarrow> fst (fst (run_frames hs st)) = fst st + length hs"
proof (induction hs arbitrary: st)
  case Nil
  then show ?case by simp
next
  case (Cons h hs)
  show ?case
  proof (cases "fst st" "h (snd st)" rule: tick_cases)
    case step
    with Cons.prems have "snd (run_frames hs (Suc (fst st),
        applyForces (1 - real (Suc (fst st)) / real maxSteps) (h (snd st))))" by simp
    from Cons.IH [OF this] step show ?thesis by simp
  next
    case stop
    with Cons.prems show ?thesis by simp
  qed
qed

lemma run_frames_idle:
  "\<not> snd (run_frames hs st) \<Longrightarrow> \<not> simulationRunning (snd (fst (run_frames hs st)))"
proof (induction hs arbitrary: st)
  case Nil
  then show ?case by simp
next
  case (Cons h hs)
  show ?case
  proof (cases "fst st" "h (snd st)" rule: tick_cases)
    case step
    with Cons.prems have "\<not> snd (run_frames hs (Suc (fst st),
        applyForces (1 - real (Suc (fst st)) / real maxSteps) (h (snd st))))" by simp
    from Cons.IH [OF this] step show ?thesis by simp
  next
    case stop
    then show ?thesis by simp
  qed
qed

lemma run_frames_stops:
  assumes "fst st \<le> maxSteps" "maxSteps < fst st + length hs"
  shows "\<not> snd (run_frames hs st)"
proof
  assume "snd (run_frames hs st)"
  then have "fst (fst (run_frames hs st)) = fst st + length hs" by (rule run_frames_scheduled)
  moreover have "fst (fst (run_frames hs st)) \<le> maxSteps" using assms(1) by (rule run_frames_steps)
  ultimately show False using assms(2) by simp
qed

text \<open>
  C6: a simulation run executes at most \<open>maxSteps = 150\<close> steps and then is idle
  (\<open>simulationRunning = false\<close>). With no other event, \<open>run_simulation\<close> is a total function
  and ends with the step counter at 150 and the flag cleared. With any handlers between
  the frames the counter never passes 150, and after more than 150 frames \<open>tick\<close> is no
  longer scheduled and the flag is cleared. After \<open>destroy\<close> the next \<open>tick\<close> executes no
  step, changes nothing and does not reschedule itself.
\<close>

theorem simulation_stops:
  "maxSteps = 150
   \<and> fst (run_simulation (startSimulation g)) = maxSteps
   \<and> \<not> simulationRunning (snd (run_simulation (startSimulation g)))
   \<and> fst (fst (run_frames hs (startSimulation g))) \<le> maxSteps
   \<and> (maxSteps < length hs \<longrightarrow>
        \<not> snd (run_frames hs (startSimulation g))
        \<and> \<not> simulationRunning (snd (fst (run_frames hs (startSimulation g)))))
   \<and> tick (n, destroy g) = ((n, destroy g), False)
   \<and> run_simulation (n, destroy g) = (n, destroy g)
   \<and> run_frames (destroy # hs) (n, g) = ((n, destroy g), False)"
proof -
  have a: "fst (run_simulation (startSimulation g)) = maxSteps"
    by (rule run_simulation_all_steps) (simp_all add: startSimulation_def)
  have b: "fst (fst (run_frames hs (startSimulation g))) \<le> maxSteps"
    by (rule run_frames_steps) (simp add: startSimulation_def)
  have c: "\<not> snd (run_frames hs (startSimulation g))
      \<and> \<not> simulationRunning (snd (fst (run_frames hs (startSimulation g))))"
    if "maxSteps < length hs"
  proof -
    have "\<not> snd (run_frames hs (startSimulation g))"
      by (rule run_frames_stops) (simp_all add: startSimulation_def that)
    then show ?thesis by (simp add: run_frames_idle)
  qed
  have d: "tick (n, destroy g) = ((n, destroy g), False)"
    by (simp add: tick_def destroy_def)
  have e: "run_simulation (n, destroy g) = (n, destroy g)"
    by (subst run_simulation.simps) (simp add: d)
  have f: "run_frames (destroy # hs) (n, g) = ((n, destroy g), False)"
    by (simp add: d)
  show ?thesis
    using a b c d e f run_simulation_idle by (simp add: maxSteps_def)
qed

theorem simulation_stops_witness:
  "maxSteps < length (replicate 151 zoomIn)
   \<and> \<not> snd (run_frames (replicate 151 zoomIn) (startSimulation demo_graph))
   \<and> \<not> simulationRunning (snd (fst (run_frames (replicate 151 zoomIn) (startSimulation demo_graph))))
   \<and> fst (run_simulation (startSimulation demo_graph)) = 150
   \<and> \<not> simulationRunning (snd (run_simulation (startSimulation demo_graph)))
   \<and> tick (7, destroy demo_graph) = ((7, destroy demo_graph), False)"
  using simulation_stops [of demo_graph "replicate 151 zoomIn" 7] by (simp add: maxSteps_def)

section \<open>The forces change velocities only; the boundary clamp\<close>

lemma map_update_same:
  assumes "f v = f (xs ! k)"
  shows "map f (xs[k := v]) = map f xs"
proof (cases "k < length xs")
  case True
  then show ?thesis using assms by (simp add: map_update list_update_same_conv)
next
  case False
  then show ?thesis by (simp add: list_update_beyond)
qed

lemma repel_keeps:
  assumes "\<And>n a b. f (n\<lparr>n_vx := a, n_vy := b\<rparr>) = f n"
  shows "map f (repel alpha i j ns) = map f ns"
  by (simp add: repel_def Let_def map_update_same assms)

lemma repulsion_keeps:
  assumes "\<And>n a b. f (n\<lparr>n_vx := a, n_vy := b\<rparr>) = f n"
  shows "map f (repulsion alpha ns) = map f ns"
proof -
  have inner: "map f (fold (\<lambda>j. repel alpha i j) js ms) = map f ms" for i js ms
    by (induction js arbitrary: ms) (simp_all add: repel_keeps assms)
  have outer: "map f (fold (\<lambda>i. fold (\<lambda>j. repel alpha i j) (h i)) is ms) = map f ms" for h "is" ms
    by (induction "is" arbitrary: ms) (simp_all add: inner)
  show ?thesis unfolding repulsion_def by (rule outer)
qed

lemma attract_keeps:
  assumes "\<And>n a b. f (n\<lparr>n_vx := a, n_vy := b\<rparr>) = f n"
  shows "map f (attract alpha e ns) = map f ns"
  by (simp add: attract_def Let_def map_update_same assms split: option.splits)

lemma attraction_keeps:
  assumes "\<And>n a b. f (n\<lparr>n_vx := a, n_vy := b\<rparr>) = f n"
  shows "map f (attraction alpha es ns) = map f ns"
  unfolding attraction_def
  by (induction es arbitrary: ns) (simp_all add: attract_keeps assms)

lemma forces_keep:
  assumes "\<And>n a b. f (n\<lparr>n_vx := a, n_vy := b\<rparr>) = f n"
  shows "map f (attraction alpha es (repulsion alpha ns)) = map f ns"
  by (simp add: attraction_keeps repulsion_keeps assms)

lemma forces_length: "length (attraction alpha es (repulsion alpha ns)) = length ns"
  using forces_keep [of "\<lambda>_. ()" alpha es ns] by (metis length_map)

lemma integrate_nth:
  "i < length ns \<Longrightarrow>
     integrate dragged alpha ns ! i
       = (if Some i = dragged then ns ! i else integrate_node alpha (ns ! i))"
  by (simp add: integrate_def nth_enumerate_eq)

lemma integrate_length: "length (integrate dragged alpha ns) = length ns"
  by (simp add: integrate_def)

lemma applyForces_length: "length (nodes (applyForces alpha g)) = length (nodes g)"
  by (simp add: applyForces_def integrate_length forces_length)

lemma integrate_node_bounded:
  "\<bar>n_x (integrate_node alpha n)\<bar> \<le> 500 \<and> \<bar>n_y (integrate_node alpha n)\<bar> \<le> 500"
  unfolding integrate_node_def Let_def by (simp add: abs_le_iff) linarith

text \<open>
  C9: after every step, every node that is not the dragged one has a position in the
  square \<open>|x| \<le> 500\<close>, \<open>|y| \<le> 500\<close> (over the reals), whatever its position and velocity
  were before the step; the step keeps the number of nodes.
\<close>

theorem positions_clamped:
  "length (nodes (applyForces alpha g)) = length (nodes g)
   \<and> (i < length (nodes g) \<and> draggedNode g \<noteq> Some i \<longrightarrow>
        \<bar>n_x (nodes (applyForces alpha g) ! i)\<bar> \<le> 500
        \<and> \<bar>n_y (nodes (applyForces alpha g) ! i)\<bar> \<le> 500)"
proof -
  have "\<bar>n_x (nodes (applyForces alpha g) ! i)\<bar> \<le> 500 \<and> \<bar>n_y (nodes (applyForces alpha g) ! i)\<bar> \<le> 500"
    if "i < length (nodes g)" "draggedNode g \<noteq> Some i"
  proof -
    let ?ms = "attraction alpha (edges g) (repulsion alpha (nodes g))"
    have "i < length ?ms" using that by (simp add: forces_length)
    then have "nodes (applyForces alpha g) ! i = integrate_node alpha (?ms ! i)"
      using that(2) by (auto simp: applyForces_def integrate_nth)
    then show ?thesis by (simp add: integrate_node_bounded)
  qed
  then show ?thesis by (simp add: applyForces_length)
qed

theorem positions_clamped_witness:
  "(0::nat) < length (nodes demo_graph) \<and> draggedNode demo_graph \<noteq> Some 0
   \<and> \<bar>n_x (nodes (applyForces (149 / 150) demo_graph) ! 0)\<bar> \<le> 500
   \<and> \<bar>n_y (nodes (applyForces (149 / 150) demo_graph) ! 0)\<bar> \<le> 500"
proof -
  have d: "draggedNode demo_graph = None"
    by (simp add: demo_graph_def eval_defs)
  show ?thesis
    using positions_clamped [of "149 / 150" demo_graph 0] by (simp add: d demo_graph_nodes)
qed

section \<open>Correctness of the shortest-path search\<close>

lemma set_neighbors: "set (neighbors es c) = {n. adjacent es c n}"
  by (auto simp: neighbors_def adjacent_def)

lemma is_path_snoc:
  "is_path es (p @ [n]) \<longleftrightarrow> p = [] \<or> (is_path es p \<and> adjacent es (last p) n)"
  by (induction es p rule: is_path.induct) auto

lemma is_path_nonempty: "is_path es p \<Longrightarrow> p \<noteq> []"
  by auto

lemma scan_found:
  "scan_neighbors t p ns V Q = Found r \<Longrightarrow> r = p @ [t] \<and> t \<in> set ns"
  by (induction ns arbitrary: V Q) (auto split: if_splits)

lemma scan_continue:
  "scan_neighbors t p ns V Q = Continue V' Q' \<Longrightarrow>
     t \<notin> set ns \<and> V' = V \<union> set ns
     \<and> (\<exists>new. Q' = Q @ new
           \<and> (\<forall>q \<in> set new. \<exists>n \<in> set ns. n \<notin> V \<and> q = p @ [n])
           \<and> (\<forall>n \<in> set ns. n \<notin> V \<longrightarrow> p @ [n] \<in> set new))"
proof (induction ns arbitrary: V Q)
  case Nil
  then show ?case by simp
next
  case (Cons n ns)
  from Cons.prems have nt: "n \<noteq> t" by (auto split: if_splits)
  show ?case
  proof (cases "n \<in> V")
    case True
    with nt Cons.prems have "scan_neighbors t p ns V Q = Continue V' Q'" by simp
    from Cons.IH [OF this] True nt show ?thesis by auto
  next
    case False
    with nt Cons.prems have
      "scan_neighbors t p ns (insert n V) (Q @ [p @ [n]]) = Continue V' Q'" by simp
    from Cons.IH [OF this] obtain new where
      t: "t \<notin> set ns" and V': "V' = insert n V \<union> set ns" and
      Q': "Q' = (Q @ [p @ [n]]) @ new" and
      from_ns: "\<forall>q \<in> set new. \<exists>m \<in> set ns. m \<notin> insert n V \<and> q = p @ [m]" and
      all_ns: "\<forall>m \<in> set ns. m \<notin> insert n V \<longrightarrow> p @ [m] \<in> set new"
      by blast
    let ?new = "(p @ [n]) # new"
    have a: "Q' = Q @ ?new" using Q' by simp
    have b: "\<forall>q \<in> set ?new. \<exists>m \<in> set (n # ns). m \<notin> V \<and> q = p @ [m]"
      using from_ns False by auto
    have c: "\<forall>m \<in> set (n # ns). m \<notin> V \<longrightarrow> p @ [m] \<in> set ?new"
      using all_ns by auto
    have d: "t \<notin> set (n # ns)" using t nt by simp
    have e: "V' = V \<union> set (n # ns)" using V' by simp
    from a b c have "\<exists>new. Q' = Q @ new
           \<and> (\<forall>q \<in> set new. \<exists>m \<in> set (n # ns). m \<notin> V \<and> q = p @ [m])
           \<and> (\<forall>m \<in> set (n # ns). m \<notin> V \<longrightarrow> p @ [m] \<in> set new)"
      by (intro exI [of _ ?new] conjI)
    with d e show ?thesis by (intro conjI)
  qed
qed

lemma bfs_inv_init:
  assumes "s \<noteq> t"
  shows "bfs_inv es s t 1 {} {s} [[s]]"
proof -
  have split: "\<exists>A B. [[s]] = A @ B \<and> (\<forall>p \<in> set A. length p = 1) \<and> (\<forall>p \<in> set B. length p = Suc 1)"
    by (intro exI [of _ "[[s]]"] exI [of _ "[]"]) simp
  have short: "last w \<in> {s}" if "is_path es w" "hd w = s" "length w \<le> 1" for w
  proof -
    from that(1) have "w \<noteq> []" by auto
    with that(3) obtain v where "w = [v]" by (cases w) auto
    with that(2) show ?thesis by simp
  qed
  have minimal: "length [s] \<le> length w" if "is_path es w" for w
    using that by (cases w) auto
  show ?thesis
    unfolding bfs_inv_def using assms split short minimal by auto
qed

lemma bfs_inv_level:
  assumes inv: "bfs_inv es s t k D V Q" and all: "\<forall>p \<in> set Q. length p = Suc k"
  shows "bfs_inv es s t (Suc k) D V Q"
proof -
  from inv have sV: "s \<in> V" and tV: "t \<notin> V"
    and paths: "\<forall>p \<in> set Q. is_path es p \<and> hd p = s \<and> last p \<in> V
            \<and> (\<forall>w. is_path es w \<and> hd w = s \<and> last w = last p \<longrightarrow> length p \<le> length w)"
    and short: "\<forall>w. is_path es w \<and> hd w = s \<and> length w \<le> k \<longrightarrow> last w \<in> V"
    and cover: "V \<subseteq> D \<union> last ` set Q"
    and closed: "\<forall>u \<in> D. \<forall>n. adjacent es u n \<longrightarrow> n \<in> V"
    unfolding bfs_inv_def by blast+
  have split: "\<exists>A B. Q = A @ B \<and> (\<forall>p \<in> set A. length p = Suc k)
      \<and> (\<forall>p \<in> set B. length p = Suc (Suc k))"
    using all by (intro exI [of _ Q] exI [of _ "[]"]) simp
  have short': "last w \<in> V" if w: "is_path es w" "hd w = s" "length w \<le> Suc k" for w
  proof (cases "length w \<le> k")
    case True
    with w short show ?thesis by blast
  next
    case False
    with w have len: "length w = Suc k" by simp
    from w(1) have "w \<noteq> []" by auto
    then obtain w' n where w_eq: "w = w' @ [n]" by (cases w rule: rev_cases) auto
    show ?thesis
    proof (cases "w' = []")
      case True
      with w_eq w(2) sV show ?thesis by simp
    next
      case False
      with w(1) w_eq have pw': "is_path es w'" and adj: "adjacent es (last w') n"
        by (simp_all add: is_path_snoc)
      from False w(2) w_eq have hw': "hd w' = s" by simp
      from len w_eq have lw': "length w' = k" by simp
      with pw' hw' short have "last w' \<in> V" by blast
      with cover have "last w' \<in> D \<or> last w' \<in> last ` set Q" by blast
      then have "last w' \<in> D"
      proof
        assume "last w' \<in> D" then show ?thesis .
      next
        assume "last w' \<in> last ` set Q"
        then obtain q where q: "q \<in> set Q" "last w' = last q" by blast
        with paths pw' hw' have "length q \<le> length w'" by blast
        moreover from q all have "length q = Suc k" by blast
        ultimately show ?thesis using lw' by simp
      qed
      with closed adj have "n \<in> V" by blast
      with w_eq show ?thesis by simp
    qed
  qed
  show ?thesis
    unfolding bfs_inv_def using sV tV split paths short' cover closed by blast
qed

lemma bfs_inv_head:
  assumes inv: "bfs_inv es s t k D V (p # Qr)"
  shows "\<exists>k'. bfs_inv es s t k' D V (p # Qr) \<and> length p = k'"
proof -
  from inv obtain A B where AB: "p # Qr = A @ B" "\<forall>q \<in> set A. length q = k"
    "\<forall>q \<in> set B. length q = Suc k"
    unfolding bfs_inv_def by blast
  show ?thesis
  proof (cases A)
    case Nil
    with AB have "\<forall>q \<in> set (p # Qr). length q = Suc k" by simp
    with inv have "bfs_inv es s t (Suc k) D V (p # Qr)" by (rule bfs_inv_level)
    moreover from Nil AB have "length p = Suc k" by (metis append_Nil list.set_intros(1))
    ultimately show ?thesis by blast
  next
    case (Cons a A')
    with AB have "length p = k" by simp
    with inv show ?thesis by blast
  qed
qed

lemma bfs_found:
  assumes inv: "bfs_inv es s t k D V (p # Qr)" and len: "length p = k"
    and adj: "adjacent es (last p) t"
  shows "connects es s t (p @ [t]) \<and> (\<forall>w. connects es s t w \<longrightarrow> length (p @ [t]) \<le> length w)"
proof -
  from inv have tV: "t \<notin> V"
    and p: "is_path es p" "hd p = s"
    and short: "\<forall>w. is_path es w \<and> hd w = s \<and> length w \<le> k \<longrightarrow> last w \<in> V"
    unfolding bfs_inv_def by simp_all
  from p(1) have ne: "p \<noteq> []" by auto
  have "connects es s t (p @ [t])"
    using p ne adj by (simp add: connects_def is_path_snoc)
  moreover have "length (p @ [t]) \<le> length w" if "connects es s t w" for w
  proof (rule ccontr)
    assume "\<not> length (p @ [t]) \<le> length w"
    with len have "length w \<le> k" by simp
    with that short have "last w \<in> V" unfolding connects_def by blast
    with that tV show False by (simp add: connects_def)
  qed
  ultimately show ?thesis by blast
qed

lemma bfs_step:
  assumes inv: "bfs_inv es s t k D V (p # Qr)" and len: "length p = k"
    and scan: "scan_neighbors t p (neighbors es (last p)) V Qr = Continue V' Q'"
  shows "bfs_inv es s t k (insert (last p) D) V' Q'"
proof -
  from inv have sV: "s \<in> V" and tV: "t \<notin> V"
    and paths: "\<forall>q \<in> set (p # Qr). is_path es q \<and> hd q = s \<and> last q \<in> V
            \<and> (\<forall>w. is_path es w \<and> hd w = s \<and> last w = last q \<longrightarrow> length q \<le> length w)"
    and short: "\<forall>w. is_path es w \<and> hd w = s \<and> length w \<le> k \<longrightarrow> last w \<in> V"
    and cover: "V \<subseteq> D \<union> last ` set (p # Qr)"
    and closed: "\<forall>u \<in> D. \<forall>n. adjacent es u n \<longrightarrow> n \<in> V"
    unfolding bfs_inv_def by blast+
  from inv obtain A B where AB: "p # Qr = A @ B" "\<forall>q \<in> set A. length q = k"
    "\<forall>q \<in> set B. length q = Suc k"
    unfolding bfs_inv_def by blast
  from paths have p: "is_path es p" "hd p = s" by simp_all
  then have ne: "p \<noteq> []" by auto
  let ?ns = "neighbors es (last p)"
  from scan_continue [OF scan] obtain new where
    t_ns: "t \<notin> set ?ns" and V': "V' = V \<union> set ?ns" and Q': "Q' = Qr @ new"
    and from_ns: "\<forall>q \<in> set new. \<exists>n \<in> set ?ns. n \<notin> V \<and> q = p @ [n]"
    and all_ns: "\<forall>n \<in> set ?ns. n \<notin> V \<longrightarrow> p @ [n] \<in> set new"
    by blast
  have sV': "s \<in> V'" using sV V' by simp
  have tV': "t \<notin> V'" using tV t_ns V' by simp
  have split: "\<exists>A B. Q' = A @ B \<and> (\<forall>q \<in> set A. length q = k) \<and> (\<forall>q \<in> set B. length q = Suc k)"
  proof (cases A)
    case Nil
    with AB have "length p = Suc k" by (metis append_Nil list.set_intros(1))
    with len show ?thesis by simp
  next
    case (Cons a A')
    with AB have Qr: "Qr = A' @ B" and A': "\<forall>q \<in> set A'. length q = k" by simp_all
    have "\<forall>q \<in> set new. length q = Suc k" using from_ns len by auto
    with AB(3) have "\<forall>q \<in> set (B @ new). length q = Suc k" by auto
    moreover have "Q' = A' @ (B @ new)" using Q' Qr by simp
    ultimately show ?thesis using A' by blast
  qed
  have new_ok: "is_path es q \<and> hd q = s \<and> last q \<in> V'
      \<and> (\<forall>w. is_path es w \<and> hd w = s \<and> last w = last q \<longrightarrow> length q \<le> length w)"
    if "q \<in> set new" for q
  proof -
    from that from_ns obtain n where n: "n \<in> set ?ns" "n \<notin> V" "q = p @ [n]" by blast
    from n(1) have adj: "adjacent es (last p) n" by (simp add: set_neighbors)
    have "length q \<le> length w" if w: "is_path es w" "hd w = s" "last w = last q" for w
    proof (rule ccontr)
      assume "\<not> length q \<le> length w"
      with n(3) len have "length w \<le> k" by simp
      with w short have "last w \<in> V" by blast
      with w(3) n show False by simp
    qed
    then show ?thesis using n p ne adj V' by (simp add: is_path_snoc)
  qed
  have paths': "\<forall>q \<in> set Q'. is_path es q \<and> hd q = s \<and> last q \<in> V'
      \<and> (\<forall>w. is_path es w \<and> hd w = s \<and> last w = last q \<longrightarrow> length q \<le> length w)"
  proof
    fix q assume "q \<in> set Q'"
    with Q' have "q \<in> set Qr \<or> q \<in> set new" by simp
    then show "is_path es q \<and> hd q = s \<and> last q \<in> V'
      \<and> (\<forall>w. is_path es w \<and> hd w = s \<and> last w = last q \<longrightarrow> length q \<le> length w)"
    proof
      assume "q \<in> set Qr"
      with paths V' show ?thesis by simp
    next
      assume "q \<in> set new"
      then show ?thesis by (rule new_ok)
    qed
  qed
  have short': "\<forall>w. is_path es w \<and> hd w = s \<and> length w \<le> k \<longrightarrow> last w \<in> V'"
    using short V' by blast
  have cover': "V' \<subseteq> insert (last p) D \<union> last ` set Q'"
  proof
    fix v assume "v \<in> V'"
    with V' have "v \<in> V \<or> (v \<in> set ?ns \<and> v \<notin> V)" by blast
    then show "v \<in> insert (last p) D \<union> last ` set Q'"
    proof
      assume "v \<in> V"
      with cover have "v \<in> D \<or> v = last p \<or> v \<in> last ` set Qr" by auto
      with Q' show ?thesis by auto
    next
      assume "v \<in> set ?ns \<and> v \<notin> V"
      with all_ns have "p @ [v] \<in> set new" by blast
      then have "last (p @ [v]) \<in> last ` set Q'" using Q' by (intro imageI) simp
      then show ?thesis by simp
    qed
  qed
  have closed': "\<forall>u \<in> insert (last p) D. \<forall>n. adjacent es u n \<longrightarrow> n \<in> V'"
    using closed V' by (auto simp: set_neighbors)
  show ?thesis
    unfolding bfs_inv_def using sV' tV' split paths' short' cover' closed' by blast
qed

lemma bfs_exhausted:
  assumes inv: "bfs_inv es s t k D V []"
  shows "\<not> connects es s t w"
proof
  assume c: "connects es s t w"
  from inv have sV: "s \<in> V" and tV: "t \<notin> V" and cover: "V \<subseteq> D"
    and closed: "\<forall>u \<in> D. \<forall>n. adjacent es u n \<longrightarrow> n \<in> V"
    unfolding bfs_inv_def by auto
  have "is_path es v \<Longrightarrow> hd v = s \<Longrightarrow> last v \<in> V" for v
  proof (induction v rule: rev_induct)
    case Nil
    then show ?case by simp
  next
    case (snoc n v)
    show ?case
    proof (cases "v = []")
      case True
      with snoc.prems sV show ?thesis by simp
    next
      case False
      with snoc.prems have "is_path es v" "adjacent es (last v) n" "hd v = s"
        by (simp_all add: is_path_snoc)
      with snoc.IH have "last v \<in> V" by simp
      with cover closed \<open>adjacent es (last v) n\<close> show ?thesis by auto
    qed
  qed
  with c have "t \<in> V" by (auto simp: connects_def)
  with tV show False by simp
qed

lemma bfs_loop_correct:
  "bfs_inv es s t k D V Q \<Longrightarrow>
     (case bfs_loop es t V Q of
        None \<Rightarrow> (\<forall>w. \<not> connects es s t w)
      | Some r \<Rightarrow> connects es s t r \<and> (\<forall>w. connects es s t w \<longrightarrow> length r \<le> length w))"
proof (induction es t V Q arbitrary: k D rule: bfs_loop.induct)
  case (1 es t V)
  then show ?case by (simp add: bfs_exhausted)
next
  case (2 es t V p Qr)
  from bfs_inv_head [OF "2.prems"] obtain k' where
    inv: "bfs_inv es s t k' D V (p # Qr)" and len: "length p = k'" by blast
  show ?case
  proof (cases "scan_neighbors t p (neighbors es (last p)) V Qr")
    case (Found r)
    from scan_found [OF Found] have r: "r = p @ [t]" and "t \<in> set (neighbors es (last p))"
      by simp_all
    then have "adjacent es (last p) t" by (simp add: set_neighbors)
    from bfs_found [OF inv len this] Found r show ?thesis by simp
  next
    case (Continue V' Q')
    from bfs_step [OF inv len Continue]
    have "bfs_inv es s t k' (insert (last p) D) V' Q'" .
    from "2.IH" [OF Continue this] Continue show ?thesis by simp
  qed
qed

text \<open>
  C1: \<open>findShortestPath\<close> always returns (the search loop is a total function). Over the
  edges taken as undirected, a returned sequence is a path from \<open>startId\<close> to \<open>endId\<close> and
  no path between them is shorter (minimum number of hops); the result is \<open>null\<close> exactly
  when no path joins the two ids. \<open>findShortestPath(a, a)\<close> is \<open>[a]\<close>; on the path graph
  \<open>A - B - C - D - E\<close> the result from \<open>A\<close> to \<open>E\<close> is \<open>[A, B, C, D, E]\<close>; between the two
  components of a disconnected graph it is \<open>null\<close>.
\<close>

theorem findShortestPath_correct:
  "(\<forall>r. findShortestPath g s t = Some r \<longrightarrow>
        connects (edges g) s t r \<and> (\<forall>w. connects (edges g) s t w \<longrightarrow> length r \<le> length w))
   \<and> (findShortestPath g s t = None \<longleftrightarrow> (\<forall>w. \<not> connects (edges g) s t w))
   \<and> findShortestPath g a a = Some [a]
   \<and> findShortestPath path_graph ''A'' ''E'' = Some [''A'', ''B'', ''C'', ''D'', ''E'']
   \<and> findShortestPath two_components_graph ''A'' ''D'' = None"
proof -
  have main: "case findShortestPath g s t of
      None \<Rightarrow> (\<forall>w. \<not> connects (edges g) s t w)
    | Some r \<Rightarrow> connects (edges g) s t r \<and> (\<forall>w. connects (edges g) s t w \<longrightarrow> length r \<le> length w)"
  proof (cases "s = t")
    case True
    have "length [t] \<le> length w" if "connects (edges g) t t w" for w
      using that by (cases w) (auto simp: connects_def)
    with True show ?thesis by (simp add: findShortestPath_def connects_def)
  next
    case False
    then have "bfs_inv (edges g) s t 1 {} {s} [[s]]" by (rule bfs_inv_init)
    from bfs_loop_correct [OF this] False show ?thesis by (simp add: findShortestPath_def)
  qed
  have some: "\<forall>r. findShortestPath g s t = Some r \<longrightarrow>
        connects (edges g) s t r \<and> (\<forall>w. connects (edges g) s t w \<longrightarrow> length r \<le> length w)"
    using main by (auto split: option.splits)
  have none: "findShortestPath g s t = None \<longleftrightarrow> (\<forall>w. \<not> connects (edges g) s t w)"
    using main by (cases "findShortestPath g s t") auto
  have self: "findShortestPath g a a = Some [a]"
    by (simp add: findShortestPath_def)
  show ?thesis
    using some none self path_graph_search(1) two_components_search by blast
qed

theorem findShortestPath_correct_witness:
  "findShortestPath path_graph ''A'' ''C'' = Some [''A'', ''B'', ''C'']
   \<and> connects (edges path_graph) ''A'' ''C'' [''A'', ''B'', ''C'']
   \<and> connects (edges path_graph) ''A'' ''C'' [''A'', ''B'', ''C'', ''D'', ''C'']
   \<and> length [''A'', ''B'', ''C''] \<le> length [''A'', ''B'', ''C'', ''D'', ''C'']
   \<and> findShortestPath two_components_graph ''A'' ''D'' = None
   \<and> \<not> connects (edges two_components_graph) ''A'' ''D'' [''A'', ''B'', ''D'']"
proof -
  note inst = findShortestPath_correct [of path_graph "''A''" "''C''" "''A''"]
  from inst path_graph_search(2)
  have c: "connects (edges path_graph) ''A'' ''C'' [''A'', ''B'', ''C'']" by blast
  have w: "connects (edges path_graph) ''A'' ''C'' [''A'', ''B'', ''C'', ''D'', ''C'']"
    by (simp add: connects_def adjacent_def path_graph_edges)
  from inst path_graph_search(2) w
  have "length [''A'', ''B'', ''C''] \<le> length [''A'', ''B'', ''C'', ''D'', ''C'']" by blast
  moreover have "\<not> connects (edges two_components_graph) ''A'' ''D'' [''A'', ''B'', ''D'']"
    using findShortestPath_correct [of two_components_graph "''A''" "''D''" "''A''"]
      two_components_search by blast
  ultimately show ?thesis using c w path_graph_search(2) two_components_search by blast
qed

section \<open>A dragged node during a simulation step\<close>

text \<open>
  What the guard of the last loop does achieve, for every step and every dragged node:
  the position of the dragged node is not modified, and every other node is updated
  exactly as in the same step with no node dragged, so the dragged node acts on the others
  as any node does.
\<close>

lemma dragged_node_position_kept:
  assumes dr: "draggedNode g = Some d" and d: "d < length (nodes g)"
  shows "n_x (nodes (applyForces alpha g) ! d) = n_x (nodes g ! d)"
    and "n_y (nodes (applyForces alpha g) ! d) = n_y (nodes g ! d)"
proof -
  let ?ms = "attraction alpha (edges g) (repulsion alpha (nodes g))"
  have len: "length ?ms = length (nodes g)" by (rule forces_length)
  have same: "nodes (applyForces alpha g) ! d = ?ms ! d"
    using dr d len by (simp add: applyForces_def integrate_nth)
  have "map n_x ?ms = map n_x (nodes g)" by (rule forces_keep) simp
  then have "map n_x ?ms ! d = map n_x (nodes g) ! d" by simp
  then have x: "n_x (?ms ! d) = n_x (nodes g ! d)" using d len by simp
  have "map n_y ?ms = map n_y (nodes g)" by (rule forces_keep) simp
  then have "map n_y ?ms ! d = map n_y (nodes g) ! d" by simp
  then have y: "n_y (?ms ! d) = n_y (nodes g ! d)" using d len by simp
  show "n_x (nodes (applyForces alpha g) ! d) = n_x (nodes g ! d)"
    and "n_y (nodes (applyForces alpha g) ! d) = n_y (nodes g ! d)"
    using same x y by simp_all
qed

lemma dragged_node_acts_on_others:
  assumes "draggedNode g = Some d" and "i < length (nodes g)" and "i \<noteq> d"
  shows "nodes (applyForces alpha g) ! i
      = nodes (applyForces alpha (g\<lparr>draggedNode := None\<rparr>)) ! i"
  using assms by (simp add: applyForces_def integrate_nth forces_length)

text \<open>
  C5, evaluated on the first example: the guard \<open>if (node === this.draggedNode) return\<close>
  stands in the last loop only, so the step is not without effect on the velocity of the
  dragged node. Node \<open>B\<close> is at rest when the drag begins; the step of the first animation
  frame (cooling coefficient \<open>149/150\<close>) with \<open>B\<close> dragged keeps it at \<open>(-360, 0)\<close> and
  leaves it with \<open>vx = 1251451/81000\<close> (about 15.45), the undamped sum of the repulsion
  from \<open>A\<close> and the attraction of the edge.
\<close>

theorem dragged_node_velocity_changes:
  "draggedNode dragging_graph = Some 1
   \<and> n_vx (nodes dragging_graph ! 1) = 0 \<and> n_vy (nodes dragging_graph ! 1) = 0
   \<and> dragged_step_graph = applyForces (149 / 150) dragging_graph
   \<and> draggedNode dragged_step_graph = Some 1
   \<and> n_x (nodes dragged_step_graph ! 1) = - 360 \<and> n_y (nodes dragged_step_graph ! 1) = 0
   \<and> n_vx (nodes dragged_step_graph ! 1) = 1251451 / 81000
   \<and> n_vx (nodes dragged_step_graph ! 1) \<noteq> n_vx (nodes dragging_graph ! 1)"
proof -
  have "dragged_step_graph = applyForces (149 / 150) dragging_graph"
    by (simp add: dragged_step_graph_def tick_def maxSteps_def dragging_graph_simps Let_def)
  then show ?thesis
    using dragged_step_flags(1)
    by (simp add: dragging_graph_simps demo_graph_nodes dragged_step_nodes)
qed

section \<open>The end of a drag\<close>




section \<open>Edges with unknown endpoints\<close>

text \<open>
  C3 (as amended): \<open>parseData\<close> has no failure and validates nothing: every relationship
  record becomes an edge with its id, source and target, whether or not these refer to
  nodes, and the nodes do not depend on the relationship records. An edge with an unknown
  endpoint is skipped by the attraction force and gets no element in \<open>renderEdges\<close>.
\<close>

theorem parseData_accepts_every_edge:
  "edges (parseData rnd g) = map parse_edge (relationships (data g))
   \<and> map e_id (edges (parseData rnd g)) = map rr_id (relationships (data g))
   \<and> map e_source (edges (parseData rnd g)) = map sourceEntityId (relationships (data g))
   \<and> map e_target (edges (parseData rnd g)) = map targetEntityId (relationships (data g))
   \<and> nodes (parseData rnd (g\<lparr>data := (data g)\<lparr>relationships := rels\<rparr>\<rparr>)) = nodes (parseData rnd g)
   \<and> (find_node ns (e_source e) = None \<or> find_node ns (e_target e) = None \<longrightarrow>
        attract alpha e ns = ns)
   \<and> map eg_edgeId (edgesGroup (renderEdges g))
       = map e_id (filter (\<lambda>e. find_node (nodes g) (e_source e) \<noteq> None
                              \<and> find_node (nodes g) (e_target e) \<noteq> None) (edges g))"
  by (auto simp: parseData_def parse_edge_def attract_def renderEdges_def render_edge_def
      comp_def split: option.splits)

theorem parseData_accepts_every_edge_witness:
  "find_node (nodes dangling_graph) (e_target (hd (edges dangling_graph))) = None
   \<and> attract 1 (hd (edges dangling_graph)) (nodes dangling_graph) = nodes dangling_graph
   \<and> map e_target (edges dangling_graph) = [''Z'']
   \<and> edgesGroup (renderEdges dangling_graph) = []"
  using parseData_accepts_every_edge
    [of "\<lambda>_. 1 / 2" "new_graph ''graph'' dangling_data" "[]" "nodes dangling_graph"
        "hd (edges dangling_graph)" 1]
  by (simp add: dangling_graph_simps renderEdges_def)

text \<open>
  The claim as stated fails: the relationship \<open>e1\<close> from \<open>A\<close> to the unknown \<open>Z\<close> is not
  rejected; the edge list, empty before, holds it after \<open>parseData\<close>.
\<close>

theorem dangling_edge_counterexample:
  "edges (new_graph ''graph'' dangling_data) = []
   \<and> find_node (nodes dangling_graph) ''Z'' = None
   \<and> edges dangling_graph =
       [\<lparr>e_id = ''e1'', e_source = ''A'', e_target = ''Z'', e_type = ''Related'',
          e_strength = ''Medium''\<rparr>]"
  by (simp add: dangling_graph_simps) (simp add: new_graph_def)

section \<open>Path highlighting\<close>



lemma update_first_length [simp]: "length (update_first P f xs) = length xs"
  by (induction xs) simp_all


lemma update_first_keys:
  "(\<And>x. key (f x) = key x) \<Longrightarrow> map key (update_first P f xs) = map key xs"
  by (induction xs) simp_all


lemma highlight_nodes_length [simp]: "length (highlight_nodes cid path ngs) = length ngs"
  unfolding highlight_nodes_def by (induction path arbitrary: ngs) simp_all


lemma mark_node_id [simp]: "ng_nodeId (mark_node cid ng) = ng_nodeId ng"
  by (simp add: mark_node_def)


lemma mark_edge_simps [simp]:
  "eg_edgeId (mark_edge eg) = eg_edgeId eg"
  "l_stroke_opacity (eg_line (mark_edge eg)) = l_stroke_opacity (eg_line eg)"
  "l_path_highlight (eg_line (mark_edge eg))"
  "l_stroke (eg_line (mark_edge eg)) = ''#3b82f6''"
  "l_stroke_width (eg_line (mark_edge eg)) = ''4''"
  by (simp_all add: mark_edge_def highlight_line_def)


lemma highlight_pair_keys: "map eg_edgeId (highlight_pair es a b egs) = map eg_edgeId egs"
  by (simp add: highlight_pair_def update_first_keys split: option.splits)

lemma highlight_pair_length [simp]: "length (highlight_pair es a b egs) = length egs"
  using highlight_pair_keys [of es a b egs] by (metis length_map)

lemma highlight_edges_keys: "map eg_edgeId (highlight_edges es path egs) = map eg_edgeId egs"
  by (induction es path egs rule: highlight_edges.induct) (simp_all add: highlight_pair_keys)

lemma highlight_edges_length [simp]: "length (highlight_edges es path egs) = length egs"
  using highlight_edges_keys [of es path egs] by (metis length_map)





lemma clear_line_plain [simp]:
  "\<not> l_path_highlight (clear_line l)" "l_stroke_opacity (clear_line l) = l_stroke_opacity l"
  by (simp_all add: clear_line_def)

lemma clear_node_group_id [simp]: "ng_nodeId (clear_node_group ns ng) = ng_nodeId ng"
  by (simp add: clear_node_group_def split: option.splits)







section \<open>Clearing a highlight\<close>

text \<open>
  C2, evaluated on the first example: \<open>highlightPath('A', 'B')\<close> followed by
  \<open>clearPathHighlight()\<close> does not give back the rendered styling. The strong edge
  (stroke \<open>#475569\<close>, width 3) ends with the stroke and width of a medium edge, since no
  line has a \<open>data-strength\<close> attribute; the main circle of \<open>A\<close> has lost its shadow filter;
  the layer ring of \<open>B\<close>, the first circle of its group, has the stroke of a main circle.
\<close>

theorem clear_does_not_restore:
  "highlightPath ''A'' ''B'' demo_graph = (True, demo_highlighted)
   \<and> demo_cleared = clearPathHighlight demo_highlighted
   \<and> eg_line (edgesGroup demo_graph ! 0)
       = \<lparr>l_path_highlight = False, l_stroke = ''#475569'', l_stroke_width = ''3'',
           l_stroke_opacity = ''0.6'', l_data_strength = None, l_animates = 0\<rparr>
   \<and> eg_line (edgesGroup demo_cleared ! 0)
       = \<lparr>l_path_highlight = False, l_stroke = ''#94a3b8'', l_stroke_width = ''2'',
           l_stroke_opacity = ''0.6'', l_data_strength = None, l_animates = 0\<rparr>
   \<and> ng_first (nodesGroup demo_graph ! 0)
       = \<lparr>c_stroke = ''#1e40af'', c_stroke_width = ''4'',
           c_filter = Some ''url(#shadow-graph)'', c_opacity = None\<rparr>
   \<and> ng_first (nodesGroup demo_cleared ! 0)
       = \<lparr>c_stroke = ''#1e40af'', c_stroke_width = ''4'', c_filter = None, c_opacity = None\<rparr>
   \<and> ng_first (nodesGroup demo_graph ! 1)
       = \<lparr>c_stroke = ''#e2e8f0'', c_stroke_width = ''1'', c_filter = None,
           c_opacity = Some ''0.5''\<rparr>
   \<and> ng_first (nodesGroup demo_cleared ! 1)
       = \<lparr>c_stroke = ''#fff'', c_stroke_width = ''2'', c_filter = None,
           c_opacity = Some ''0.5''\<rparr>"
proof -
  have call: "highlightPath ''A'' ''B'' demo_graph = (True, demo_highlighted)"
    using demo_highlighted_fields(1) unfolding demo_highlighted_def
    by (cases "highlightPath ''A'' ''B'' demo_graph") simp
  show ?thesis
    using call
    by (simp add: demo_cleared_def clearPathHighlight_def clear_line_def clear_node_group_def
        demo_highlighted_fields demo_graph_dom demo_graph_nodes or_default_def
        getEdgeColor_def getEdgeWidth_def)
qed

section \<open>Zoom\<close>

text \<open>
  C8 (as amended): \<open>zoomIn\<close> lowers the zoom scalar by the additive step 0.1, not below
  0.5, and \<open>zoomOut\<close> raises it by 0.1, not above 2, so a zoom scalar in \<open>[0.5, 2]\<close> stays
  there; the viewport becomes 1000 times zoom wide and 800 times zoom high and is centred
  on the model origin, whatever the pan offset and the pointer position were.
\<close>

theorem zoom_recentres_on_origin:
  "zoom (zoomIn g) = max (1 / 2) (zoom g - 1 / 10)
   \<and> zoom (zoomOut g) = min 2 (zoom g + 1 / 10)
   \<and> viewBox (zoomIn g) = \<lparr>vb_x = - 500 * zoom (zoomIn g), vb_y = - 400 * zoom (zoomIn g),
         vb_width = 1000 * zoom (zoomIn g), vb_height = 800 * zoom (zoomIn g)\<rparr>
   \<and> viewBox (zoomOut g) = \<lparr>vb_x = - 500 * zoom (zoomOut g), vb_y = - 400 * zoom (zoomOut g),
         vb_width = 1000 * zoom (zoomOut g), vb_height = 800 * zoom (zoomOut g)\<rparr>
   \<and> (1 / 2 \<le> zoom g \<and> zoom g \<le> 2 \<longrightarrow>
        1 / 2 \<le> zoom (zoomIn g) \<and> zoom (zoomIn g) \<le> 2
        \<and> 1 / 2 \<le> zoom (zoomOut g) \<and> zoom (zoomOut g) \<le> 2)"
  by (simp add: zoomIn_def zoomOut_def Let_def)

theorem zoom_recentres_on_origin_witness:
  "1 / 2 \<le> zoom demo_graph \<and> zoom demo_graph \<le> 2
   \<and> zoom (zoomIn demo_graph) = 9 / 10
   \<and> viewBox (zoomIn demo_graph) = \<lparr>vb_x = - 450, vb_y = - 360, vb_width = 900, vb_height = 720\<rparr>
   \<and> zoom (zoomOut demo_graph) = 11 / 10
   \<and> viewBox (zoomOut demo_graph) = \<lparr>vb_x = - 550, vb_y = - 440, vb_width = 1100, vb_height = 880\<rparr>"
proof -
  have z: "zoom demo_graph = 1"
    by (simp add: demo_graph_def eval_defs)
  show ?thesis
    using zoom_recentres_on_origin [of demo_graph] by (simp add: z)
qed

text \<open>
  The claim as stated fails: two \<open>zoomOut\<close> calls scale the width by different factors
  (1100/1000 and 1200/1100), and after a pan that put the model point \<open>(600, 0)\<close> under
  the pointer at the middle of the element, \<open>zoomIn\<close> puts the origin there.
\<close>

theorem zoom_counterexample:
  "vb_width (viewBox (zoomOut demo_graph)) / vb_width (viewBox demo_graph)
     \<noteq> vb_width (viewBox (zoomOut (zoomOut demo_graph))) / vb_width (viewBox (zoomOut demo_graph))
   \<and> viewBox panned_graph = \<lparr>vb_x = 100, vb_y = - 400, vb_width = 1000, vb_height = 800\<rparr>
   \<and> client_to_svg (500, 400) client_rect panned_graph = (600, 0)
   \<and> client_to_svg (500, 400) client_rect (zoomIn panned_graph) = (0, 0)"
  by (simp add: panned_graph_def client_rect_def mouseup_def mousemove_def mousedown_svg_def
      zoomIn_def zoomOut_def client_to_svg_def demo_graph_def eval_defs)

section \<open>Highlighting a path from a node to itself\<close>

text \<open>
  C10: for every node id \<open>a\<close> (present in the graph or not), \<open>findShortestPath(a, a)\<close> is
  the single-element path \<open>[a]\<close>, and \<open>highlightPath(a, a)\<close> returns \<open>false\<close> and leaves
  the whole graph state, hence the styling of every node and edge, unchanged.
\<close>

theorem highlightPath_same_node:
  "findShortestPath g a a = Some [a] \<and> highlightPath a a g = (False, g)"
  by (simp add: highlightPath_def findShortestPath_def)

theorem highlightPath_same_node_witness:
  "find_node (nodes demo_graph) ''B'' = Some 1
   \<and> findShortestPath demo_graph ''B'' ''B'' = Some [''B'']
   \<and> highlightPath ''B'' ''B'' demo_graph = (False, demo_graph)"
  using highlightPath_same_node [of demo_graph "''B''"]
  by (simp add: demo_graph_nodes)


end
